theory Spec2Isabelle
  imports Complex_Main "HOL-Library.AList"
begin

section \<open>Data model\<close>

text \<open>
  The function under study is \<^verbatim>\<open>t_closeness\<close> of
  \<^verbatim>\<open>anjana/anonymity/_t_closeness.py\<close>. A pandas dataframe is a list of named columns
  (the order of the columns is kept); \<^verbatim>\<open>pd.DataFrame()\<close> is the dataframe without
  columns. Cell values are strings.
\<close>

text \<open>
  The target \<open>t\<close> and the values of the metric are Python floats (\<open>t\<close> may be an
  \<^verbatim>\<open>int\<close>, which is a number too): a number, an infinity or NaN. The comparisons
  \<^verbatim>\<open><=\<close>, \<^verbatim>\<open><\<close> and \<^verbatim>\<open>>\<close> of Python order the numbers between the infinities, and are
  False as soon as one side is NaN; so \<^verbatim>\<open>a <= b\<close> and \<^verbatim>\<open>a > b\<close> can both be False.
\<close>

datatype pyfloat = Num real | PosInf | NegInf | NaN

instantiation pyfloat :: ord
begin

fun less_eq_pyfloat :: "pyfloat \<Rightarrow> pyfloat \<Rightarrow> bool" where
  "less_eq_pyfloat NaN b = False"
| "less_eq_pyfloat a NaN = False"
| "less_eq_pyfloat NegInf b = True"
| "less_eq_pyfloat a PosInf = True"
| "less_eq_pyfloat (Num a) (Num b) = (a \<le> b)"
| "less_eq_pyfloat a b = False"

fun less_pyfloat :: "pyfloat \<Rightarrow> pyfloat \<Rightarrow> bool" where
  "less_pyfloat NaN b = False"
| "less_pyfloat a NaN = False"
| "less_pyfloat (Num a) (Num b) = (a < b)"
| "less_pyfloat a NegInf = False"
| "less_pyfloat PosInf b = False"
| "less_pyfloat a b = True"

instance ..

end

datatype py_error = ValueError | KeyError | AttributeError

type_synonym column = "string list"

type_synonym dataframe = "(string \<times> column) list"

text \<open>
  The parameters \<^verbatim>\<open>ident\<close> and \<^verbatim>\<open>quasi_ident\<close> are annotated
  \<^verbatim>\<open>typing.Union[typing.List, np.ndarray]\<close>: both containers are kept apart, because a
  Python list has a method \<^verbatim>\<open>remove\<close> and a numpy array has none.
\<close>

datatype 'a pyseq = PyList (items: "'a list") | NdArray (items: "'a list")

text \<open>
  A hierarchy is the table of the example scripts (\<^verbatim>\<open>{0: column, 1: column, ...}\<close>): one
  column per level, level 0 first, the rows aligned across the levels.
\<close>

type_synonym hierarchy = "column list"

type_synonym hierarchies = "(string \<times> hierarchy) list"

type_synonym gen_levels = "(string \<times> nat) list"

text \<open>
  What the function does besides returning: the calls to its collaborators and its prints,
  in the order in which they happen.
\<close>

datatype event =
    Enforce
  | Metric dataframe "string pyseq" "string list"
  | Generalized string nat
  | Exhausted string
  | Print_verifies pyfloat
  | Print_cannot pyfloat

text \<open>The local variables of \<^verbatim>\<open>t_closeness\<close> that the loop reads and writes.\<close>

record state =
  data_kanon :: dataframe
  gen_level :: gen_levels
  quasi_ident :: "string pyseq"
  quasi_ident_gen :: "string pyseq"
  t_real :: pyfloat
  trace :: "event list"

datatype outcome = Return "py_error + dataframe" | Continue

section \<open>The collaborators\<close>

text \<open>
  The metric oracle \<^verbatim>\<open>pycanon.anonymity.t_closeness\<close> is an external library and the
  enforcer \<^verbatim>\<open>k_anonymity_inner\<close> is not among the sources: both are parameters of the
  model. The oracle is a function of the dataframe, the quasi-identifiers and the list of
  sensitive attributes; the enforcer returns the k-anonymous dataframe, the number of
  suppressed records and the generalization levels, or raises.
\<close>

type_synonym metric_oracle = "dataframe \<Rightarrow> string pyseq \<Rightarrow> string list \<Rightarrow> pyfloat"

type_synonym enforcer =
  "dataframe \<Rightarrow> string pyseq \<Rightarrow> string pyseq \<Rightarrow> int \<Rightarrow> pyfloat \<Rightarrow> hierarchies
     \<Rightarrow> py_error + (dataframe \<times> nat \<times> gen_levels)"

text \<open>
  Modelled from the spec: \<^verbatim>\<open>utils.apply_hierarchy\<close> (the Generalization Applier of
  section 4.1) is not among the sources. It fails with a domain error when the level
  exceeds the hierarchy's maximum defined level (the levels of a hierarchy with \<open>n\<close>
  columns are \<open>0..n - 1\<close>); otherwise the output has the length of the input and each raw
  value is replaced by its image at the level, read off the row of the table in which the
  raw value stands. The spec requires every raw value to stand in the table; a value that
  does not is left as it is.
\<close>

definition apply_hierarchy :: "column \<Rightarrow> hierarchy \<Rightarrow> nat \<Rightarrow> py_error + column" where
  "apply_hierarchy vals h level =
     (if level + 1 > length h then Inl ValueError
      else Inr (map (\<lambda>v. case map_of (zip (h ! 0) (h ! level)) v of
                              Some c \<Rightarrow> c
                            | None \<Rightarrow> v) vals))"

section \<open>The refinement loop\<close>

text \<open>
  \<^verbatim>\<open>np.argmax\<close> on a list of counts: the index of the first greatest entry. The loop calls
  it on a non-empty list only.
\<close>

definition argmax :: "nat list \<Rightarrow> nat" where
  "argmax xs = length (takeWhile (\<lambda>x. x < fold max xs 0) xs)"

text \<open>\<^verbatim>\<open>len(np.unique(data_kanon[qi]))\<close>; a column that does not exist is a \<^verbatim>\<open>KeyError\<close>.\<close>

definition n_unique :: "dataframe \<Rightarrow> string \<Rightarrow> py_error + nat" where
  "n_unique df qi =
     (case map_of df qi of
        None \<Rightarrow> Inl KeyError
      | Some col \<Rightarrow> Inr (length (remdups col)))"

text \<open>The list comprehension of lines 90 to 92, stopped by the first \<^verbatim>\<open>KeyError\<close>.\<close>

fun n_uniques :: "dataframe \<Rightarrow> string list \<Rightarrow> py_error + nat list" where
  "n_uniques df [] = Inr []"
| "n_uniques df (qi # qis) =
     (case n_unique df qi of
        Inl e \<Rightarrow> Inl e
      | Inr n \<Rightarrow> (case n_uniques df qis of
                    Inl e \<Rightarrow> Inl e
                  | Inr ns \<Rightarrow> Inr (n # ns)))"

definition qi_gen_of :: "dataframe \<Rightarrow> string list \<Rightarrow> py_error + string" where
  "qi_gen_of df cands =
     (case n_uniques df cands of
        Inl e \<Rightarrow> Inl e
      | Inr ns \<Rightarrow> Inr (cands ! argmax ns))"

text \<open>
  \<^verbatim>\<open>quasi_ident_gen.remove(qi_gen)\<close>: a list loses the first occurrence (and raises
  \<^verbatim>\<open>ValueError\<close> when there is none); a numpy array has no such method.
\<close>

fun seq_remove :: "'a \<Rightarrow> 'a pyseq \<Rightarrow> py_error + 'a pyseq" where
  "seq_remove x (PyList xs) =
     (if x \<in> set xs then Inr (PyList (remove1 x xs)) else Inl ValueError)"
| "seq_remove x (NdArray xs) = Inl AttributeError"

text \<open>
  The \<^verbatim>\<open>try\<close> statement of lines 94 to 102. The three subscripts are evaluated before
  \<^verbatim>\<open>apply_hierarchy\<close> is called and their \<^verbatim>\<open>KeyError\<close> is not caught; the
  \<^verbatim>\<open>ValueError\<close> of \<^verbatim>\<open>apply_hierarchy\<close> is.
\<close>

definition try_generalize :: "hierarchies \<Rightarrow> state \<Rightarrow> string \<Rightarrow> py_error + state" where
  "try_generalize hs s qi_gen =
     (case map_of (data_kanon s) qi_gen of
        None \<Rightarrow> Inl KeyError
      | Some col \<Rightarrow>
     (case map_of hs qi_gen of
        None \<Rightarrow> Inl KeyError
      | Some h \<Rightarrow>
     (case map_of (gen_level s) qi_gen of
        None \<Rightarrow> Inl KeyError
      | Some g \<Rightarrow>
     (case apply_hierarchy col h (g + 1) of
        Inr generalization_qi \<Rightarrow>
          Inr (s\<lparr>data_kanon := AList.update qi_gen generalization_qi (data_kanon s),
                 gen_level := AList.update qi_gen (g + 1) (gen_level s),
                 trace := trace s @ [Generalized qi_gen (g + 1)]\<rparr>)
      | Inl ValueError \<Rightarrow>
          (if qi_gen \<in> set (items (quasi_ident_gen s))
           then (case seq_remove qi_gen (quasi_ident_gen s) of
                   Inl e \<Rightarrow> Inl e
                 | Inr rest \<Rightarrow>
                     Inr (s\<lparr>quasi_ident_gen := rest,
                            trace := trace s @ [Exhausted qi_gen]\<rparr>))
           else Inr (s\<lparr>trace := trace s @ [Exhausted qi_gen]\<rparr>))
      | Inl e \<Rightarrow> Inl e))))"

text \<open>One pass through the body of the \<^verbatim>\<open>while\<close> loop, lines 86 to 106.\<close>

definition iteration ::
  "metric_oracle \<Rightarrow> hierarchies \<Rightarrow> string \<Rightarrow> pyfloat \<Rightarrow> state \<Rightarrow> outcome \<times> state" where
  "iteration orc hs sens_att t s =
     (if length (items (quasi_ident_gen s)) = 0
      then (Return (Inr []), s\<lparr>trace := trace s @ [Print_cannot t]\<rparr>)
      else
        (case qi_gen_of (data_kanon s) (items (quasi_ident_gen s)) of
           Inl e \<Rightarrow> (Return (Inl e), s)
         | Inr qi_gen \<Rightarrow>
        (case try_generalize hs s qi_gen of
           Inl e \<Rightarrow> (Return (Inl e), s)
         | Inr s1 \<Rightarrow>
             (let s2 = s1\<lparr>t_real := orc (data_kanon s1) (quasi_ident s1) [sens_att],
                          trace := trace s1 @ [Metric (data_kanon s1) (quasi_ident s1) [sens_att]]\<rparr>
              in if t_real s2 \<le> t then (Return (Inr (data_kanon s2)), s2)
                 else (Continue, s2)))))"

text \<open>
  What bounds the loop: the levels still above the recorded one, summed over the
  candidates, plus the number of candidates.
\<close>

definition room :: "hierarchies \<Rightarrow> gen_levels \<Rightarrow> string \<Rightarrow> nat" where
  "room hs gl q =
     (case map_of hs q of
        None \<Rightarrow> 0
      | Some h \<Rightarrow> (case map_of gl q of None \<Rightarrow> 0 | Some g \<Rightarrow> length h - 1 - g))"

definition budget :: "hierarchies \<Rightarrow> state \<Rightarrow> nat" where
  "budget hs s =
     sum_list (map (room hs (gen_level s)) (items (quasi_ident_gen s)))
       + length (items (quasi_ident_gen s))"

section \<open>Termination of the loop\<close>

text \<open>
  A pass that continues has either raised the level of the selected attribute, which
  \<^verbatim>\<open>apply_hierarchy\<close> allows only below the last level of that attribute's hierarchy, or
  removed one candidate: the budget falls in both cases.
\<close>

lemma n_uniques_length: "n_uniques df qis = Inr ns \<Longrightarrow> length ns = length qis"
  by (induction qis arbitrary: ns) (auto split: sum.splits)

lemma fold_max_Max: "fold max xs (0::nat) = Max (insert 0 (set xs))"
  using Max.set_eq_fold [of 0 xs] by simp


lemma fold_max_mem: "xs \<noteq> [] \<Longrightarrow> fold max xs (0::nat) \<in> set xs"
proof -
  assume ne: "xs \<noteq> []"
  have "Max (insert 0 (set xs)) \<in> insert 0 (set xs)"
    by (rule Max_in) simp_all
  moreover have "(0::nat) \<in> set xs" if "Max (insert 0 (set xs)) = 0"
  proof -
    obtain x where x: "x \<in> set xs" using ne by (cases xs) auto
    then have "x \<le> Max (insert 0 (set xs))" by simp
    with that x show ?thesis by simp
  qed
  ultimately show ?thesis by (auto simp: fold_max_Max)
qed

lemma argmax_less: "xs \<noteq> [] \<Longrightarrow> argmax xs < length xs"
proof -
  assume ne: "xs \<noteq> []"
  have "dropWhile (\<lambda>x. x < fold max xs 0) xs \<noteq> []"
    using fold_max_mem [OF ne] by (auto simp: dropWhile_eq_Nil_conv)
  moreover have "length xs = length (takeWhile (\<lambda>x. x < fold max xs 0) xs)
      + length (dropWhile (\<lambda>x. x < fold max xs 0) xs)"
    by (metis length_append takeWhile_dropWhile_id)
  ultimately show ?thesis by (simp add: argmax_def)
qed




lemma qi_gen_of_mem: "cands \<noteq> [] \<Longrightarrow> qi_gen_of df cands = Inr q \<Longrightarrow> q \<in> set cands"
proof -
  assume ne: "cands \<noteq> []" and q: "qi_gen_of df cands = Inr q"
  from q obtain ns where ns: "n_uniques df cands = Inr ns" and qd: "q = cands ! argmax ns"
    by (auto simp: qi_gen_of_def split: sum.splits)
  have "length ns = length cands" using ns by (rule n_uniques_length)
  moreover from this ne have "ns \<noteq> []" by auto
  ultimately have "argmax ns < length cands" using argmax_less [of ns] by simp
  with qd show ?thesis by simp
qed

lemma sum_list_one_less:
  fixes f g :: "'a \<Rightarrow> nat"
  shows "\<forall>x\<in>set xs. f x \<le> g x \<Longrightarrow> q \<in> set xs \<Longrightarrow> f q < g q \<Longrightarrow>
    sum_list (map f xs) < sum_list (map g xs)"
proof (induction xs)
  case Nil
  then show ?case by simp
next
  case (Cons a xs)
  have le: "sum_list (map f xs) \<le> sum_list (map g xs)"
    using Cons.prems(1) by (intro sum_list_mono) simp
  show ?case
  proof (cases "q = a")
    case True
    then show ?thesis using Cons.prems(3) le by simp
  next
    case False
    then have "sum_list (map f xs) < sum_list (map g xs)"
      using Cons by simp
    moreover have "f a \<le> g a" using Cons.prems(1) by simp
    ultimately show ?thesis by simp
  qed
qed

lemma apply_hierarchy_Inr: "apply_hierarchy col h l = Inr c \<Longrightarrow> l < length h \<and> length c = length col"
  by (auto simp: apply_hierarchy_def split: if_splits)

lemma apply_hierarchy_Inl: "apply_hierarchy col h l = Inl e \<Longrightarrow> e = ValueError \<and> length h \<le> l"
  by (auto simp: apply_hierarchy_def split: if_splits)

lemma try_generalize_budget:
  assumes "try_generalize hs s q = Inr s1" and "q \<in> set (items (quasi_ident_gen s))"
  shows "budget hs s1 < budget hs s"
proof -
  from assms(1) obtain col h g where
    col: "map_of (data_kanon s) q = Some col" and h: "map_of hs q = Some h"
    and g: "map_of (gen_level s) q = Some g"
    by (auto simp: try_generalize_def split: option.splits)
  show ?thesis
  proof (cases "apply_hierarchy col h (g + 1)")
    case (Inr c)
    then have lt: "g + 1 < length h" by (auto dest: apply_hierarchy_Inr)
    from Inr assms(1) col h g have s1:
      "gen_level s1 = AList.update q (g + 1) (gen_level s)"
      "quasi_ident_gen s1 = quasi_ident_gen s"
      by (auto simp: try_generalize_def)
    have "sum_list (map (room hs (gen_level s1)) (items (quasi_ident_gen s)))
        < sum_list (map (room hs (gen_level s)) (items (quasi_ident_gen s)))"
    proof (rule sum_list_one_less [where q = q])
      show "\<forall>x\<in>set (items (quasi_ident_gen s)). room hs (gen_level s1) x \<le> room hs (gen_level s) x"
        using h g by (auto simp: room_def s1 update_conv' split: option.splits)
      show "q \<in> set (items (quasi_ident_gen s))" by (rule assms(2))
      show "room hs (gen_level s1) q < room hs (gen_level s) q"
        using h g lt by (simp add: room_def s1 update_conv')
    qed
    then show ?thesis by (simp add: budget_def s1)
  next
    case (Inl e)
    then have e: "e = ValueError" by (auto dest: apply_hierarchy_Inl)
    from Inl e assms col h g obtain xs where
      xs: "quasi_ident_gen s = PyList xs" and
      s1: "gen_level s1 = gen_level s" "quasi_ident_gen s1 = PyList (remove1 q xs)"
      by (cases "quasi_ident_gen s") (auto simp: try_generalize_def split: if_splits)
    from assms(2) xs have mem: "q \<in> set xs" by simp
    have "sum_list (map (room hs (gen_level s)) xs)
        = room hs (gen_level s) q + sum_list (map (room hs (gen_level s)) (remove1 q xs))"
      using mem by (rule sum_list_map_remove1)
    moreover have "length (remove1 q xs) < length xs"
      using mem by (simp add: length_remove1) (cases xs, auto)
    ultimately show ?thesis by (simp add: budget_def s1 xs)
  qed
qed

lemma iteration_Continue_budget:
  assumes "iteration orc hs sens_att t s = (Continue, s')"
  shows "budget hs s' < budget hs s"
proof -
  from assms have ne: "items (quasi_ident_gen s) \<noteq> []"
    by (auto simp: iteration_def split: if_splits)
  with assms obtain q s1 where
    q: "qi_gen_of (data_kanon s) (items (quasi_ident_gen s)) = Inr q"
    and s1: "try_generalize hs s q = Inr s1"
    and s': "s' = s1\<lparr>t_real := orc (data_kanon s1) (quasi_ident s1) [sens_att],
                trace := trace s1 @ [Metric (data_kanon s1) (quasi_ident s1) [sens_att]]\<rparr>"
    by (auto simp: iteration_def Let_def split: sum.splits if_splits)
  have "q \<in> set (items (quasi_ident_gen s))" using ne q by (rule qi_gen_of_mem)
  with s1 have "budget hs s1 < budget hs s" by (rule try_generalize_budget)
  then show ?thesis by (simp add: s' budget_def)
qed

text \<open>The \<^verbatim>\<open>while\<close> loop of lines 85 to 108, with the final \<^verbatim>\<open>return data_kanon\<close>.\<close>

function loop ::
  "metric_oracle \<Rightarrow> hierarchies \<Rightarrow> string \<Rightarrow> pyfloat \<Rightarrow> state \<Rightarrow> (py_error + dataframe) \<times> state" where
  "loop orc hs sens_att t s =
     (if t_real s > t
      then (case iteration orc hs sens_att t s of
              (Return r, s') \<Rightarrow> (r, s')
            | (Continue, s') \<Rightarrow> loop orc hs sens_att t s')
      else (Inr (data_kanon s), s))"
  by pat_completeness auto
termination
  apply (relation "measure (\<lambda>(orc, hs, sens_att, t, s). budget hs s)")
  apply simp
  apply (simp add: iteration_Continue_budget)
  done

section \<open>The entry point\<close>

text \<open>The local variables when the loop is entered (lines 74 to 79).\<close>

definition entry_state ::
  "metric_oracle \<Rightarrow> string pyseq \<Rightarrow> string \<Rightarrow> dataframe \<Rightarrow> gen_levels \<Rightarrow> state" where
  "entry_state orc qi sens_att dk gl =
     \<lparr>data_kanon = dk, gen_level = gl, quasi_ident = qi, quasi_ident_gen = qi,
      t_real = orc dk qi [sens_att], trace = [Enforce, Metric dk qi [sens_att]]\<rparr>"

text \<open>
  \<^verbatim>\<open>t_closeness\<close>, lines 71 to 108: the value returned or the exception raised, and
  what was called and printed on the way.
\<close>

definition t_closeness ::
  "enforcer \<Rightarrow> metric_oracle \<Rightarrow> dataframe \<Rightarrow> string pyseq \<Rightarrow> string pyseq \<Rightarrow> string
     \<Rightarrow> int \<Rightarrow> pyfloat \<Rightarrow> pyfloat \<Rightarrow> hierarchies \<Rightarrow> (py_error + dataframe) \<times> event list" where
  "t_closeness k_anonymity_inner orc data ident qi sens_att k t supp_level hs =
     (if t < Num 0 \<or> t > Num 1 then (Inl ValueError, [])
      else
        (case k_anonymity_inner data ident qi k supp_level hs of
           Inl e \<Rightarrow> (Inl e, [Enforce])
         | Inr (dk, supp_records, gl) \<Rightarrow>
             (let s = entry_state orc qi sens_att dk gl
              in if t_real s \<le> t
                 then (Inr (data_kanon s), trace s @ [Print_verifies (t_real s)])
                 else (case loop orc hs sens_att t s of (r, s') \<Rightarrow> (r, trace s')))))"

text \<open>
  The state at the head of the loop after \<open>n\<close> complete passes, when the run gets that
  far.
\<close>

fun state_after ::
  "metric_oracle \<Rightarrow> hierarchies \<Rightarrow> string \<Rightarrow> pyfloat \<Rightarrow> nat \<Rightarrow> state \<Rightarrow> state option" where
  "state_after orc hs sens_att t 0 s = Some s"
| "state_after orc hs sens_att t (Suc n) s =
     (if t_real s > t
      then (case iteration orc hs sens_att t s of
              (Return r, s') \<Rightarrow> None
            | (Continue, s') \<Rightarrow> state_after orc hs sens_att t n s')
      else None)"


section \<open>A small run\<close>

text \<open>
  Three patients in the style of \<^verbatim>\<open>examples/hospital.py\<close>: a two-level hierarchy for
  the age (exact, decade) and the identity hierarchy for the city. The enforcer of the
  example leaves the data as it is, at level 0 everywhere; the metric of the example is a
  quarter of the greatest number of distinct values in a quasi-identifier column.
\<close>

definition hospital :: dataframe where
  "hospital =
     [(''age'', [''25'', ''27'', ''31'']),
      (''city'', [''Kerala'', ''Kerala'', ''Delhi'']),
      (''disease'', [''Cancer'', ''TB'', ''Cancer''])]"

definition hospital_decades :: dataframe where
  "hospital_decades =
     [(''age'', [''[20, 30['', ''[20, 30['', ''[30, 40['']),
      (''city'', [''Kerala'', ''Kerala'', ''Delhi'']),
      (''disease'', [''Cancer'', ''TB'', ''Cancer''])]"

definition hospital_hierarchies :: hierarchies where
  "hospital_hierarchies =
     [(''age'', [[''25'', ''27'', ''31''], [''[20, 30['', ''[20, 30['', ''[30, 40['']]),
      (''city'', [[''Kerala'', ''Kerala'', ''Delhi'']])]"

definition kept_as_is :: enforcer where
  "kept_as_is data ident qi k supp_level hs = Inr (data, 0, map (\<lambda>q. (q, 0)) (items qi))"

definition widest :: metric_oracle where
  "widest df qi sens =
     Num (real (fold max (map (\<lambda>q. case map_of df q of
                                      None \<Rightarrow> 0
                                    | Some col \<Rightarrow> length (remdups col)) (items qi)) 0) / 4)"

text \<open>The state of the small run when its loop is entered.\<close>

definition at_entry :: state where
  "at_entry =
     entry_state widest (PyList [''age'', ''city'']) ''disease'' hospital
       [(''age'', 0), (''city'', 0)]"

text \<open>The state of the small run after its first pass, which has put the ages in decades.\<close>

definition in_decades :: state where
  "in_decades =
     \<lparr>data_kanon = hospital_decades, gen_level = [(''age'', 1), (''city'', 0)],
      quasi_ident = PyList [''age'', ''city''], quasi_ident_gen = PyList [''age'', ''city''],
      t_real = Num (1 / 2),
      trace = [Enforce, Metric hospital (PyList [''age'', ''city'']) [''disease''],
               Generalized ''age'' 1,
               Metric hospital_decades (PyList [''age'', ''city'']) [''disease'']]\<rparr>"

lemmas ex_defs = t_closeness_def kept_as_is_def entry_state_def widest_def hospital_def
  hospital_hierarchies_def hospital_decades_def iteration_def qi_gen_of_def n_unique_def
  try_generalize_def apply_hierarchy_def argmax_def

section \<open>Comparisons of floats\<close>

lemma in_range_iff: "Num 0 \<le> t \<Longrightarrow> t \<le> Num 1 \<Longrightarrow> \<not> (t < Num 0 \<or> t > Num 1)"
  by (cases t) auto


lemma gt_not_le: "a > b \<Longrightarrow> \<not> a \<le> (b::pyfloat)"
  by (cases a; cases b) auto



section \<open>Validation of the target\<close>

text \<open>
  Claim C2. When \<open>t < 0\<close> or \<open>t > 1\<close>, \<^verbatim>\<open>t_closeness\<close> raises \<^verbatim>\<open>ValueError\<close> at once:
  whatever the enforcer, the oracle and the data are, the result is the error and the
  list of what was called is empty, so the enforcer has not run, nothing has been
  generalized and nothing has touched the data.
\<close>

theorem t_out_of_range_rejected:
  "t < Num 0 \<or> t > Num 1 \<Longrightarrow>
   t_closeness k_anonymity_inner orc data ident qi sens_att k t supp_level hs
     = (Inl ValueError, [])"
  by (simp add: t_closeness_def)

theorem t_out_of_range_rejected_witness:
  "(Num 2 < Num 0 \<or> Num 2 > Num 1) \<and>
   t_closeness kept_as_is widest hospital (PyList []) (PyList [''age'', ''city''])
     ''disease'' 1 (Num 2) (Num 0) hospital_hierarchies = (Inl ValueError, [])"
  using t_out_of_range_rejected [of "Num 2" kept_as_is widest hospital "PyList []"
    "PyList [''age'', ''city'']" "''disease''" 1 "Num 0" hospital_hierarchies]
  by simp

section \<open>A target that is met already\<close>

text \<open>
  Claim C7. When the metric of the k-anonymous dataframe that the enforcer returns is at
  most the target (as it is for \<open>t = 1\<close> whenever the oracle's value is at most 1),
  \<^verbatim>\<open>t_closeness\<close> returns that dataframe as it is: the enforcer and the oracle have been
  called once each, the value has been printed, and no generalization has been tried.
\<close>

theorem satisfied_target_returns_at_once:
  assumes "Num 0 \<le> t" and "t \<le> Num 1"
    and "k_anonymity_inner data ident qi k supp_level hs = Inr (dk, supp_records, gl)"
    and "orc dk qi [sens_att] \<le> t"
  shows "t_closeness k_anonymity_inner orc data ident qi sens_att k t supp_level hs
     = (Inr dk, [Enforce, Metric dk qi [sens_att], Print_verifies (orc dk qi [sens_att])])"
  using assms in_range_iff [OF assms(1,2)] by (simp add: t_closeness_def entry_state_def)

theorem satisfied_target_returns_at_once_witness:
  "widest hospital (PyList [''age'', ''city'']) [''disease''] \<le> Num 1 \<and>
   t_closeness kept_as_is widest hospital (PyList []) (PyList [''age'', ''city''])
     ''disease'' 1 (Num 1) (Num 0) hospital_hierarchies
     = (Inr hospital,
        [Enforce, Metric hospital (PyList [''age'', ''city'']) [''disease''],
         Print_verifies (Num (3 / 4))])"
proof -
  have m: "widest hospital (PyList [''age'', ''city'']) [''disease''] = Num (3 / 4)"
    by (simp add: widest_def hospital_def)
  have e: "kept_as_is hospital (PyList []) (PyList [''age'', ''city'']) 1 (Num 0) hospital_hierarchies
      = Inr (hospital, 0, [(''age'', 0), (''city'', 0)])"
    by (simp add: kept_as_is_def)
  show ?thesis
    using satisfied_target_returns_at_once [where t = "Num 1" and orc = widest
        and sens_att = "''disease''" and k_anonymity_inner = kept_as_is and data = hospital
        and ident = "PyList []" and qi = "PyList [''age'', ''city'']" and k = 1
        and supp_level = "Num 0" and hs = hospital_hierarchies and dk = hospital
        and supp_records = 0 and gl = "[(''age'', 0), (''city'', 0)]"] m e
    by simp
qed

section \<open>What one pass does\<close>

text \<open>
  The ways through the \<^verbatim>\<open>try\<close> statement that do not raise: the column is replaced and
  the level advanced, or the hierarchy is exhausted and the attribute leaves the list of
  candidates (the third way, an exhausted attribute that is no candidate, does not occur
  in a run).
\<close>

lemma try_generalize_cases:
  assumes "try_generalize hs s q = Inr s1"
  obtains (generalized) col h g c where
      "map_of (data_kanon s) q = Some col" "map_of hs q = Some h"
      "map_of (gen_level s) q = Some g" "apply_hierarchy col h (g + 1) = Inr c"
      "s1 = s\<lparr>data_kanon := AList.update q c (data_kanon s),
               gen_level := AList.update q (g + 1) (gen_level s),
               trace := trace s @ [Generalized q (g + 1)]\<rparr>"
  | (exhausted) col h g xs where
      "map_of (data_kanon s) q = Some col" "map_of hs q = Some h"
      "map_of (gen_level s) q = Some g" "apply_hierarchy col h (g + 1) = Inl ValueError"
      "quasi_ident_gen s = PyList xs" "q \<in> set xs"
      "s1 = s\<lparr>quasi_ident_gen := PyList (remove1 q xs),
               trace := trace s @ [Exhausted q]\<rparr>"
  | (absent) col h g where
      "map_of (data_kanon s) q = Some col" "map_of hs q = Some h"
      "map_of (gen_level s) q = Some g" "apply_hierarchy col h (g + 1) = Inl ValueError"
      "q \<notin> set (items (quasi_ident_gen s))"
      "s1 = s\<lparr>trace := trace s @ [Exhausted q]\<rparr>"
proof -
  from assms obtain col h g where
    col: "map_of (data_kanon s) q = Some col" and h: "map_of hs q = Some h"
    and g: "map_of (gen_level s) q = Some g"
    by (auto simp: try_generalize_def split: option.splits)
  show ?thesis
  proof (cases "apply_hierarchy col h (g + 1)")
    case (Inr c)
    with assms col h g show ?thesis
      by (intro generalized [of col h g c]) (auto simp: try_generalize_def)
  next
    case (Inl e)
    then have e: "apply_hierarchy col h (g + 1) = Inl ValueError"
      by (auto dest: apply_hierarchy_Inl)
    show ?thesis
    proof (cases "q \<in> set (items (quasi_ident_gen s))")
      case True
      with assms col h g e obtain xs where
        "quasi_ident_gen s = PyList xs" "q \<in> set xs"
        "s1 = s\<lparr>quasi_ident_gen := PyList (remove1 q xs), trace := trace s @ [Exhausted q]\<rparr>"
        by (cases "quasi_ident_gen s") (auto simp: try_generalize_def split: if_splits)
      with col h g e show ?thesis by (intro exhausted [of col h g xs])
    next
      case False
      with assms col h g e show ?thesis
        by (intro absent [of col h g]) (auto simp: try_generalize_def)
    qed
  qed
qed

lemma try_generalize_quasi_ident:
  "try_generalize hs s q = Inr s1 \<Longrightarrow> quasi_ident s1 = quasi_ident s"
  by (erule try_generalize_cases) simp_all

text \<open>The four ways through one pass of the loop.\<close>

lemma iteration_cases:
  assumes "iteration orc hs sens_att t s = (out, s')"
  obtains (empty) "items (quasi_ident_gen s) = []" "out = Return (Inr [])"
      "s' = s\<lparr>trace := trace s @ [Print_cannot t]\<rparr>"
  | (no_column) e where "items (quasi_ident_gen s) \<noteq> []"
      "qi_gen_of (data_kanon s) (items (quasi_ident_gen s)) = Inl e"
      "out = Return (Inl e)" "s' = s"
  | (raised) q e where "items (quasi_ident_gen s) \<noteq> []"
      "qi_gen_of (data_kanon s) (items (quasi_ident_gen s)) = Inr q"
      "try_generalize hs s q = Inl e" "out = Return (Inl e)" "s' = s"
  | (passed) q s1 where "items (quasi_ident_gen s) \<noteq> []"
      "qi_gen_of (data_kanon s) (items (quasi_ident_gen s)) = Inr q"
      "try_generalize hs s q = Inr s1"
      "s' = s1\<lparr>t_real := orc (data_kanon s1) (quasi_ident s1) [sens_att],
                trace := trace s1 @ [Metric (data_kanon s1) (quasi_ident s1) [sens_att]]\<rparr>"
      "out = (if orc (data_kanon s1) (quasi_ident s1) [sens_att] \<le> t
              then Return (Inr (data_kanon s1)) else Continue)"
proof (cases "items (quasi_ident_gen s) = []")
  case True
  with assms show ?thesis by (intro empty) (auto simp: iteration_def)
next
  case ne: False
  show ?thesis
  proof (cases "qi_gen_of (data_kanon s) (items (quasi_ident_gen s))")
    case (Inl e)
    with assms ne show ?thesis by (intro no_column [of e]) (auto simp: iteration_def)
  next
    case q: (Inr q)
    show ?thesis
    proof (cases "try_generalize hs s q")
      case (Inl e)
      with assms ne q show ?thesis by (intro raised [of q e]) (auto simp: iteration_def)
    next
      case (Inr s1)
      with assms ne q show ?thesis
        by (intro passed [of q s1]) (auto simp: iteration_def Let_def split: if_splits)
    qed
  qed
qed



lemma iteration_Return_Inr:
  assumes "iteration orc hs sens_att t s = (Return (Inr df), s')"
  shows "df = [] \<and> items (quasi_ident_gen s) = []
     \<or> df = data_kanon s' \<and> orc df (quasi_ident s) [sens_att] \<le> t"
  using assms by (rule iteration_cases) (auto split: if_splits simp: try_generalize_quasi_ident)

section \<open>The target is met, unless a float is NaN\<close>





section \<open>Runs that reach a given pass\<close>

lemma loop_state_after:
  "state_after orc hs sens_att t n s = Some s' \<Longrightarrow>
   loop orc hs sens_att t s = loop orc hs sens_att t s'"
proof (induction n arbitrary: s)
  case 0
  then show ?case by simp
next
  case (Suc n)
  from Suc.prems have gt: "t < t_real s"
    by (simp split: if_splits)
  obtain out s1 where it: "iteration orc hs sens_att t s = (out, s1)"
    by (cases "iteration orc hs sens_att t s")
  with Suc.prems gt have out: "out = Continue"
    and rest: "state_after orc hs sens_att t n s1 = Some s'"
    by (cases out; simp)+
  have "loop orc hs sens_att t s = loop orc hs sens_att t s1"
    using gt it out by simp
  with Suc.IH [OF rest] show ?case by simp
qed

lemma state_after_t_real:
  "state_after orc hs sens_att t n s = Some s' \<Longrightarrow> t < t_real s' \<Longrightarrow> t < t_real s"
  by (cases n) (simp_all split: if_splits)

section \<open>Infeasible targets\<close>

text \<open>
  Claim C3. When a run of the loop comes to a pass with no candidate left while the metric
  still exceeds \<open>t\<close>, \<^verbatim>\<open>t_closeness\<close> returns the empty dataframe, after the print that the
  anonymization cannot be carried out: no exception and no partly generalized table.
\<close>

theorem empty_candidates_give_empty_table:
  assumes "Num 0 \<le> t" and "t \<le> Num 1"
    and "k_anonymity_inner data ident qi k supp_level hs = Inr (dk, supp_records, gl)"
    and "state_after orc hs sens_att t n (entry_state orc qi sens_att dk gl) = Some s"
    and "items (quasi_ident_gen s) = []"
    and "t < t_real s"
  shows "t_closeness k_anonymity_inner orc data ident qi sens_att k t supp_level hs
     = (Inr [], trace s @ [Print_cannot t])"
proof -
  let ?s0 = "entry_state orc qi sens_att dk gl"
  have gt: "t < t_real ?s0"
    using assms(4,6) by (rule state_after_t_real)
  have "loop orc hs sens_att t ?s0 = loop orc hs sens_att t s"
    using assms(4) by (rule loop_state_after)
  also have "\<dots> = (Inr [], s\<lparr>trace := trace s @ [Print_cannot t]\<rparr>)"
    using assms(5,6) by (simp add: iteration_def)
  finally have run: "loop orc hs sens_att t ?s0
      = (Inr [], s\<lparr>trace := trace s @ [Print_cannot t]\<rparr>)" .
  have "\<not> t_real ?s0 \<le> t"
    using gt by (rule gt_not_le)
  with assms(3) in_range_iff [OF assms(1,2)] run show ?thesis
    by (simp add: t_closeness_def Let_def del: loop.simps)
qed

theorem empty_candidates_give_empty_table_witness:
  "state_after widest hospital_hierarchies ''disease'' (Num 0) 3
     (entry_state widest (PyList [''age'', ''city'']) ''disease'' hospital
        [(''age'', 0), (''city'', 0)])
     = Some \<lparr>data_kanon = hospital_decades, gen_level = [(''age'', 1), (''city'', 0)],
             quasi_ident = PyList [''age'', ''city''], quasi_ident_gen = PyList [],
             t_real = Num (1 / 2),
             trace = [Enforce, Metric hospital (PyList [''age'', ''city'']) [''disease''],
               Generalized ''age'' 1,
               Metric hospital_decades (PyList [''age'', ''city'']) [''disease''],
               Exhausted ''age'',
               Metric hospital_decades (PyList [''age'', ''city'']) [''disease''],
               Exhausted ''city'',
               Metric hospital_decades (PyList [''age'', ''city'']) [''disease'']]\<rparr>
   \<and> t_closeness kept_as_is widest hospital (PyList []) (PyList [''age'', ''city''])
       ''disease'' 1 (Num 0) (Num 0) hospital_hierarchies
     = (Inr [],
        [Enforce, Metric hospital (PyList [''age'', ''city'']) [''disease''],
         Generalized ''age'' 1,
         Metric hospital_decades (PyList [''age'', ''city'']) [''disease''],
         Exhausted ''age'',
         Metric hospital_decades (PyList [''age'', ''city'']) [''disease''],
         Exhausted ''city'',
         Metric hospital_decades (PyList [''age'', ''city'']) [''disease''],
         Print_cannot (Num 0)])"
proof -
  let ?s = "\<lparr>data_kanon = hospital_decades, gen_level = [(''age'', 1), (''city'', 0)],
             quasi_ident = PyList [''age'', ''city''], quasi_ident_gen = PyList [],
             t_real = Num (1 / 2),
             trace = [Enforce, Metric hospital (PyList [''age'', ''city'']) [''disease''],
               Generalized ''age'' 1,
               Metric hospital_decades (PyList [''age'', ''city'']) [''disease''],
               Exhausted ''age'',
               Metric hospital_decades (PyList [''age'', ''city'']) [''disease''],
               Exhausted ''city'',
               Metric hospital_decades (PyList [''age'', ''city'']) [''disease'']]\<rparr>"
  have e: "kept_as_is hospital (PyList []) (PyList [''age'', ''city'']) 1 (Num 0) hospital_hierarchies
      = Inr (hospital, 0, [(''age'', 0), (''city'', 0)])"
    by (simp add: kept_as_is_def)
  have three: "state_after widest hospital_hierarchies ''disease'' (Num 0) (Suc (Suc (Suc 0)))
     (entry_state widest (PyList [''age'', ''city'']) ''disease'' hospital
        [(''age'', 0), (''city'', 0)]) = Some ?s"
    by (simp add: ex_defs)
  have run: "t_closeness kept_as_is widest hospital (PyList []) (PyList [''age'', ''city''])
       ''disease'' 1 (Num 0) (Num 0) hospital_hierarchies = (Inr [], trace ?s @ [Print_cannot (Num 0)])"
    using empty_candidates_give_empty_table [where t = "Num 0" and k_anonymity_inner = kept_as_is
        and data = hospital and ident = "PyList []" and qi = "PyList [''age'', ''city'']"
        and k = 1 and supp_level = "Num 0" and hs = hospital_hierarchies and dk = hospital
        and supp_records = 0 and gl = "[(''age'', 0), (''city'', 0)]" and orc = widest
        and sens_att = "''disease''" and n = "Suc (Suc (Suc 0))" and s = ?s] e three
    by simp
  from three run show ?thesis by (simp add: numeral_3_eq_3)
qed

section \<open>Exhausted hierarchies\<close>

text \<open>The candidates of a later pass are among those of an earlier one.\<close>

lemma try_generalize_candidates:
  assumes "try_generalize hs s q = Inr s1"
  shows "set (items (quasi_ident_gen s1)) \<subseteq> set (items (quasi_ident_gen s))
    \<and> (distinct (items (quasi_ident_gen s)) \<longrightarrow> distinct (items (quasi_ident_gen s1)))"
  using assms by (rule try_generalize_cases) (auto dest: set_remove1_subset [THEN subsetD])

lemma iteration_candidates:
  assumes "iteration orc hs sens_att t s = (out, s')"
  shows "set (items (quasi_ident_gen s')) \<subseteq> set (items (quasi_ident_gen s))
    \<and> (distinct (items (quasi_ident_gen s)) \<longrightarrow> distinct (items (quasi_ident_gen s')))"
  using assms
proof (cases rule: iteration_cases)
  case (passed q s1)
  from try_generalize_candidates [OF passed(3)] passed(4) show ?thesis by simp
qed simp_all

lemma state_after_candidates:
  "state_after orc hs sens_att t n s = Some s' \<Longrightarrow>
   set (items (quasi_ident_gen s')) \<subseteq> set (items (quasi_ident_gen s))"
proof (induction n arbitrary: s)
  case 0
  then show ?case by simp
next
  case (Suc n)
  obtain out s1 where it: "iteration orc hs sens_att t s = (out, s1)"
    by (cases "iteration orc hs sens_att t s")
  with Suc.prems have rest: "state_after orc hs sens_att t n s1 = Some s'"
    by (cases out) (simp_all split: if_splits)
  from Suc.IH [OF rest] iteration_candidates [OF it] show ?case by blast
qed

text \<open>
  Claim C4, as the spec states it, fails: in the pass in which the hierarchy of the age is
  exhausted, the oracle is called again (line 104 follows the \<^verbatim>\<open>try\<close> statement on both
  ways through it), on the dataframe that the pass has left as it was.
\<close>

theorem exhausted_pass_recomputes_metric:
  "iteration widest hospital_hierarchies ''disease'' (Num 0) in_decades
     = (Continue,
        in_decades\<lparr>quasi_ident_gen := PyList [''city''],
          trace := trace in_decades @
            [Exhausted ''age'',
             Metric hospital_decades (PyList [''age'', ''city'']) [''disease'']]\<rparr>)"
  by (simp add: in_decades_def ex_defs)

text \<open>
  Claim C4, amended. In a pass in which generalizing the selected attribute raises the
  hierarchy-exhaustion error, and the candidates are a Python list, the first occurrence
  of the attribute leaves the list, the dataframe and the levels stay as they are, and the
  metric is computed once more on that dataframe; the loop returns the dataframe if this
  value is at most \<open>t\<close> and continues otherwise. When no attribute stands twice in the
  list, the attribute is a candidate in no later pass.
\<close>

theorem exhausted_attribute_leaves_candidates:
  assumes "quasi_ident_gen s = PyList xs" and "xs \<noteq> []"
    and "qi_gen_of (data_kanon s) xs = Inr q"
    and "map_of (data_kanon s) q = Some col" and "map_of hs q = Some h"
    and "map_of (gen_level s) q = Some g"
    and "apply_hierarchy col h (g + 1) = Inl ValueError"
  shows "iteration orc hs sens_att t s
      = (if orc (data_kanon s) (quasi_ident s) [sens_att] \<le> t
         then Return (Inr (data_kanon s)) else Continue,
         s\<lparr>quasi_ident_gen := PyList (remove1 q xs),
           t_real := orc (data_kanon s) (quasi_ident s) [sens_att],
           trace := trace s @
             [Exhausted q, Metric (data_kanon s) (quasi_ident s) [sens_att]]\<rparr>)
    \<and> (distinct xs \<longrightarrow>
         (\<forall>n s'. state_after orc hs sens_att t (Suc n) s = Some s'
            \<longrightarrow> q \<notin> set (items (quasi_ident_gen s'))))"
proof
  have mem: "q \<in> set xs"
    using assms(2,3) by (rule qi_gen_of_mem)
  show pass: "iteration orc hs sens_att t s
      = (if orc (data_kanon s) (quasi_ident s) [sens_att] \<le> t
         then Return (Inr (data_kanon s)) else Continue,
         s\<lparr>quasi_ident_gen := PyList (remove1 q xs),
           t_real := orc (data_kanon s) (quasi_ident s) [sens_att],
           trace := trace s @
             [Exhausted q, Metric (data_kanon s) (quasi_ident s) [sens_att]]\<rparr>)"
    using assms mem by (simp add: iteration_def try_generalize_def)
  show "distinct xs \<longrightarrow>
         (\<forall>n s'. state_after orc hs sens_att t (Suc n) s = Some s'
            \<longrightarrow> q \<notin> set (items (quasi_ident_gen s')))"
  proof (intro impI allI)
    fix n s'
    assume d: "distinct xs" and after: "state_after orc hs sens_att t (Suc n) s = Some s'"
    let ?s1 = "s\<lparr>quasi_ident_gen := PyList (remove1 q xs),
           t_real := orc (data_kanon s) (quasi_ident s) [sens_att],
           trace := trace s @
             [Exhausted q, Metric (data_kanon s) (quasi_ident s) [sens_att]]\<rparr>"
    from after pass have "state_after orc hs sens_att t n ?s1 = Some s'"
      by (simp split: if_splits)
    then have "set (items (quasi_ident_gen s')) \<subseteq> set (items (quasi_ident_gen ?s1))"
      by (rule state_after_candidates)
    with d show "q \<notin> set (items (quasi_ident_gen s'))"
      by auto
  qed
qed

theorem exhausted_attribute_leaves_candidates_witness:
  "iteration widest hospital_hierarchies ''disease'' (Num 0) in_decades
     = (Continue,
        in_decades\<lparr>quasi_ident_gen := PyList [''city''],
          t_real := Num (1 / 2),
          trace := trace in_decades @
            [Exhausted ''age'',
             Metric hospital_decades (PyList [''age'', ''city'']) [''disease'']]\<rparr>)
   \<and> state_after widest hospital_hierarchies ''disease'' (Num 0) 2 in_decades
     = Some (in_decades\<lparr>quasi_ident_gen := PyList [],
          trace := trace in_decades @
            [Exhausted ''age'',
             Metric hospital_decades (PyList [''age'', ''city'']) [''disease''],
             Exhausted ''city'',
             Metric hospital_decades (PyList [''age'', ''city'']) [''disease'']]\<rparr>)
   \<and> ''age'' \<notin> set (items (quasi_ident_gen (in_decades\<lparr>quasi_ident_gen := PyList [],
          trace := trace in_decades @
            [Exhausted ''age'',
             Metric hospital_decades (PyList [''age'', ''city'']) [''disease''],
             Exhausted ''city'',
             Metric hospital_decades (PyList [''age'', ''city'']) [''disease'']]\<rparr>)))"
proof -
  let ?s' = "in_decades\<lparr>quasi_ident_gen := PyList [],
          trace := trace in_decades @
            [Exhausted ''age'',
             Metric hospital_decades (PyList [''age'', ''city'']) [''disease''],
             Exhausted ''city'',
             Metric hospital_decades (PyList [''age'', ''city'']) [''disease'']]\<rparr>"
  have two: "state_after widest hospital_hierarchies ''disease'' (Num 0) (Suc (Suc 0)) in_decades
      = Some ?s'"
    by (simp add: in_decades_def ex_defs)
  have m: "widest hospital_decades (PyList [''age'', ''city'']) [''disease''] = Num (1 / 2)"
    by (simp add: widest_def hospital_decades_def)
  have "iteration widest hospital_hierarchies ''disease'' (Num 0) in_decades
      = (if widest (data_kanon in_decades) (quasi_ident in_decades) [''disease''] \<le> Num 0
         then Return (Inr (data_kanon in_decades)) else Continue,
         in_decades\<lparr>quasi_ident_gen := PyList (remove1 ''age'' [''age'', ''city'']),
           t_real := widest (data_kanon in_decades) (quasi_ident in_decades) [''disease''],
           trace := trace in_decades @
             [Exhausted ''age'',
              Metric (data_kanon in_decades) (quasi_ident in_decades) [''disease'']]\<rparr>)
    \<and> (distinct [''age'', ''city''] \<longrightarrow>
         (\<forall>n s'. state_after widest hospital_hierarchies ''disease'' (Num 0) (Suc n) in_decades
              = Some s'
            \<longrightarrow> ''age'' \<notin> set (items (quasi_ident_gen s'))))"
    by (rule exhausted_attribute_leaves_candidates
        [where col = "[''[20, 30['', ''[20, 30['', ''[30, 40['']"
          and h = "[[''25'', ''27'', ''31''], [''[20, 30['', ''[20, 30['', ''[30, 40['']]"
          and g = 1])
      (simp_all add: in_decades_def ex_defs)
  with two m show ?thesis
    by (simp add: in_decades_def numeral_2_eq_2)
qed

section \<open>The attribute that is selected\<close>





section \<open>Ties, and the caller's list\<close>




section \<open>Generalization levels\<close>

lemma update_level_ge:
  fixes gl :: gen_levels
  assumes "map_of gl q = Some g" and "map_of gl a = Some x"
  shows "\<exists>x'. map_of (AList.update q (g + 1) gl) a = Some x' \<and> x \<le> x'"
  using assms by (cases "a = q") (simp_all add: update_conv')

lemma iteration_gen_level:
  assumes "iteration orc hs sens_att t s = (out, s')"
  shows "gen_level s' = gen_level s
    \<or> (\<exists>q g. qi_gen_of (data_kanon s) (items (quasi_ident_gen s)) = Inr q
          \<and> map_of (gen_level s) q = Some g
          \<and> gen_level s' = AList.update q (g + 1) (gen_level s))"
  using assms
proof (cases rule: iteration_cases)
  case (passed q s1)
  from passed(3) have "gen_level s1 = gen_level s
      \<or> (\<exists>g. map_of (gen_level s) q = Some g
            \<and> gen_level s1 = AList.update q (g + 1) (gen_level s))"
    by (rule try_generalize_cases) simp_all
  with passed(2,4) show ?thesis by auto
qed simp_all

lemma iteration_levels_ge:
  assumes "iteration orc hs sens_att t s = (out, s')" and "map_of (gen_level s) a = Some x"
  shows "\<exists>x'. map_of (gen_level s') a = Some x' \<and> x \<le> x'"
proof -
  from iteration_gen_level [OF assms(1)] show ?thesis
  proof (elim disjE exE conjE)
    assume "gen_level s' = gen_level s"
    with assms(2) show ?thesis by simp
  next
    fix q g
    assume g: "map_of (gen_level s) q = Some g"
      and s': "gen_level s' = AList.update q (g + 1) (gen_level s)"
    from update_level_ge [OF g assms(2)] s' show ?thesis by simp
  qed
qed

lemma loop_levels_ge:
  "loop orc hs sens_att t s = (r, s') \<Longrightarrow> map_of (gen_level s) a = Some x \<Longrightarrow>
   \<exists>x'. map_of (gen_level s') a = Some x' \<and> x \<le> x'"
proof (induction orc hs sens_att t s arbitrary: x rule: loop.induct)
  case (1 orc hs sens_att t s)
  show ?case
  proof (cases "t < t_real s")
    case False
    with "1.prems" show ?thesis by auto
  next
    case True
    obtain out s1 where it: "iteration orc hs sens_att t s = (out, s1)"
      by (cases "iteration orc hs sens_att t s")
    from iteration_levels_ge [OF it "1.prems"(2)] obtain x1
      where x1: "map_of (gen_level s1) a = Some x1" and le: "x \<le> x1" by blast
    show ?thesis
    proof (cases out)
      case (Return r')
      with True it "1.prems"(1) have "s' = s1" by simp
      with x1 le show ?thesis by blast
    next
      case Continue
      with True it "1.prems"(1) have "loop orc hs sens_att t s1 = (r, s')" by simp
      from "1.IH" [OF True it [symmetric, unfolded Continue] refl this x1] le
      show ?thesis by force
    qed
  qed
qed

text \<open>
  Claim C6. In a run of the loop the level recorded for an attribute never decreases: a
  pass leaves all the levels as they are, or it raises the level of the selected
  attribute by one and leaves the others; so every level at the end of the loop is at
  least what it was when the loop was entered.
\<close>

theorem levels_never_decrease:
  "(iteration orc hs sens_att t s = (out, s1) \<longrightarrow>
      gen_level s1 = gen_level s
      \<or> (\<exists>q g. qi_gen_of (data_kanon s) (items (quasi_ident_gen s)) = Inr q
            \<and> map_of (gen_level s) q = Some g
            \<and> gen_level s1 = AList.update q (g + 1) (gen_level s)))
   \<and> (loop orc hs sens_att t s = (r, s') \<and> map_of (gen_level s) a = Some x \<longrightarrow>
        (\<exists>x'. map_of (gen_level s') a = Some x' \<and> x \<le> x'))"
proof (intro conjI impI)
  assume "iteration orc hs sens_att t s = (out, s1)"
  then show "gen_level s1 = gen_level s
      \<or> (\<exists>q g. qi_gen_of (data_kanon s) (items (quasi_ident_gen s)) = Inr q
            \<and> map_of (gen_level s) q = Some g
            \<and> gen_level s1 = AList.update q (g + 1) (gen_level s))"
    by (rule iteration_gen_level)
next
  assume "loop orc hs sens_att t s = (r, s') \<and> map_of (gen_level s) a = Some x"
  then show "\<exists>x'. map_of (gen_level s') a = Some x' \<and> x \<le> x'"
    using loop_levels_ge [of orc hs sens_att t s r s' a x] by blast
qed

theorem levels_never_decrease_witness:
  "iteration widest hospital_hierarchies ''disease'' (Num 0) at_entry
     = (Continue, in_decades)
   \<and> gen_level at_entry = [(''age'', 0), (''city'', 0)]
   \<and> gen_level in_decades = AList.update ''age'' (0 + 1) (gen_level at_entry)
   \<and> fst (loop widest hospital_hierarchies ''disease'' (Num 0) at_entry) = Inr []
   \<and> gen_level (snd (loop widest hospital_hierarchies ''disease'' (Num 0) at_entry))
       = [(''age'', 1), (''city'', 0)]
   \<and> (\<exists>x'. map_of (gen_level (snd (loop widest hospital_hierarchies ''disease'' (Num 0) at_entry)))
          ''age'' = Some x' \<and> 0 \<le> x')"
proof -
  have pass: "iteration widest hospital_hierarchies ''disease'' (Num 0) at_entry
     = (Continue, in_decades)"
    by (simp add: at_entry_def in_decades_def ex_defs)
  have run: "loop widest hospital_hierarchies ''disease'' (Num 0) at_entry
     = (fst (loop widest hospital_hierarchies ''disease'' (Num 0) at_entry),
        snd (loop widest hospital_hierarchies ''disease'' (Num 0) at_entry))"
    by simp
  have lev: "map_of (gen_level at_entry) ''age'' = Some 0"
    by (simp add: at_entry_def entry_state_def)
  have fin: "fst (loop widest hospital_hierarchies ''disease'' (Num 0) at_entry) = Inr []"
    "gen_level (snd (loop widest hospital_hierarchies ''disease'' (Num 0) at_entry))
       = [(''age'', 1), (''city'', 0)]"
    by (simp_all add: at_entry_def ex_defs)
  from levels_never_decrease [where orc = widest and hs = hospital_hierarchies
      and sens_att = "''disease''" and t = "Num 0" and s = at_entry and a = "''age''" and x = 0
      and r = "fst (loop widest hospital_hierarchies ''disease'' (Num 0) at_entry)"
      and s' = "snd (loop widest hospital_hierarchies ''disease'' (Num 0) at_entry)",
      THEN conjunct2] run lev
  have "\<exists>x'. map_of (gen_level (snd (loop widest hospital_hierarchies ''disease'' (Num 0) at_entry)))
          ''age'' = Some x' \<and> 0 \<le> x'"
    by blast
  with pass fin show ?thesis
    by (simp add: at_entry_def entry_state_def in_decades_def)
qed

section \<open>What the loop leaves alone\<close>

lemma update_existing_keys:
  "map_of al k = Some v \<Longrightarrow> map fst (AList.update k v' al) = map fst al"
  by (induction al) (auto split: if_splits)

lemma update_existing_lengths:
  "map_of al k = Some col \<Longrightarrow> length c = length col \<Longrightarrow>
   map (length \<circ> snd) (AList.update k c al) = map (length \<circ> snd) al"
  by (induction al) (auto split: if_splits)

lemma try_generalize_frame:
  assumes "try_generalize hs s q = Inr s1"
  shows "map fst (data_kanon s1) = map fst (data_kanon s)
    \<and> map (length \<circ> snd) (data_kanon s1) = map (length \<circ> snd) (data_kanon s)
    \<and> (\<forall>c. c \<noteq> q \<longrightarrow> map_of (data_kanon s1) c = map_of (data_kanon s) c)"
  using assms
proof (cases rule: try_generalize_cases)
  case (generalized col h g c)
  from generalized(4) have "length c = length col"
    by (auto dest: apply_hierarchy_Inr)
  with generalized(1,5) show ?thesis
    by (simp add: update_existing_keys update_existing_lengths update_conv')
qed simp_all

lemma iteration_frame:
  assumes "iteration orc hs sens_att t s = (out, s')"
    and "set (items (quasi_ident_gen s)) \<subseteq> Q"
  shows "map fst (data_kanon s') = map fst (data_kanon s)
    \<and> map (length \<circ> snd) (data_kanon s') = map (length \<circ> snd) (data_kanon s)
    \<and> (\<forall>c. c \<notin> Q \<longrightarrow> map_of (data_kanon s') c = map_of (data_kanon s) c)"
  using assms(1)
proof (cases rule: iteration_cases)
  case (passed q s1)
  from passed(1,2) have "q \<in> set (items (quasi_ident_gen s))"
    by (rule qi_gen_of_mem)
  with assms(2) have "q \<in> Q" by blast
  with try_generalize_frame [OF passed(3)] passed(4) show ?thesis by auto
qed simp_all

lemma iteration_Return_Inr_state:
  assumes "iteration orc hs sens_att t s = (Return (Inr df), s')" and "df \<noteq> []"
  shows "df = data_kanon s'"
  using iteration_Return_Inr [OF assms(1)] assms(2) by simp

lemma loop_frame:
  "loop orc hs sens_att t s = (Inr df, s') \<Longrightarrow> df \<noteq> [] \<Longrightarrow>
   set (items (quasi_ident_gen s)) \<subseteq> Q \<Longrightarrow>
   map fst df = map fst (data_kanon s)
   \<and> map (length \<circ> snd) df = map (length \<circ> snd) (data_kanon s)
   \<and> (\<forall>c. c \<notin> Q \<longrightarrow> map_of df c = map_of (data_kanon s) c)"
proof (induction orc hs sens_att t s rule: loop.induct)
  case (1 orc hs sens_att t s)
  show ?case
  proof (cases "t < t_real s")
    case False
    with "1.prems"(1) show ?thesis by auto
  next
    case True
    obtain out s1 where it: "iteration orc hs sens_att t s = (out, s1)"
      by (cases "iteration orc hs sens_att t s")
    note fr = iteration_frame [OF it "1.prems"(3)]
    show ?thesis
    proof (cases out)
      case (Return r)
      with True it "1.prems"(1) have ret: "iteration orc hs sens_att t s = (Return (Inr df), s')"
        and "s1 = s'" by simp_all
      from iteration_Return_Inr_state [OF ret "1.prems"(2)] fr \<open>s1 = s'\<close>
      show ?thesis by (simp add: comp_def)
    next
      case Continue
      with True it "1.prems"(1) have run: "loop orc hs sens_att t s1 = (Inr df, s')"
        by simp
      have sub: "set (items (quasi_ident_gen s1)) \<subseteq> Q"
        using iteration_candidates [OF it] "1.prems"(3) by blast
      from "1.IH" [OF True it [symmetric, unfolded Continue] refl run "1.prems"(2) sub] fr
      show ?thesis by (simp add: comp_def)
    qed
  qed
qed

text \<open>
  Claim C9. The loop removes no row and changes no column but the quasi-identifier
  column that it generalizes: a dataframe returned by \<^verbatim>\<open>t_closeness\<close>, when it is not the
  empty one, has the columns of the enforcer's k-anonymous dataframe, in the same order and
  each of the same length, and every column that is no quasi-identifier (so the sensitive
  attribute, when it is none) is the enforcer's.
\<close>

theorem loop_keeps_rows_and_other_columns:
  assumes "t_closeness k_anonymity_inner orc data ident qi sens_att k t supp_level hs
      = (Inr df, tr)"
    and "df \<noteq> []"
    and "k_anonymity_inner data ident qi k supp_level hs = Inr (dk, supp_records, gl)"
  shows "map fst df = map fst dk
    \<and> map (length \<circ> snd) df = map (length \<circ> snd) dk
    \<and> (\<forall>c. c \<notin> set (items qi) \<longrightarrow> map_of df c = map_of dk c)
    \<and> (sens_att \<notin> set (items qi) \<longrightarrow> map_of df sens_att = map_of dk sens_att)"
proof -
  let ?s = "entry_state orc qi sens_att dk gl"
  from assms(1,3) have range: "\<not> (t < Num 0 \<or> t > Num 1)"
    by (auto simp: t_closeness_def split: if_splits)
  have "map fst df = map fst dk
    \<and> map (length \<circ> snd) df = map (length \<circ> snd) dk
    \<and> (\<forall>c. c \<notin> set (items qi) \<longrightarrow> map_of df c = map_of dk c)"
  proof (cases "t_real ?s \<le> t")
    case True
    with assms(1,3) range have "df = dk"
      by (simp add: t_closeness_def entry_state_def)
    then show ?thesis by simp
  next
    case False
    with assms(1,3) range obtain s' where run: "loop orc hs sens_att t ?s = (Inr df, s')"
      by (auto simp: t_closeness_def Let_def split: prod.splits)
    have "set (items (quasi_ident_gen ?s)) \<subseteq> set (items qi)"
      by (simp add: entry_state_def)
    from loop_frame [OF run assms(2) this] show ?thesis
      by (simp add: entry_state_def)
  qed
  then show ?thesis by blast
qed

theorem loop_keeps_rows_and_other_columns_witness:
  "t_closeness kept_as_is widest hospital (PyList []) (PyList [''age'', ''city''])
     ''disease'' 1 (Num (1 / 2)) (Num 0) hospital_hierarchies
     = (Inr hospital_decades,
        [Enforce, Metric hospital (PyList [''age'', ''city'']) [''disease''],
         Generalized ''age'' 1,
         Metric hospital_decades (PyList [''age'', ''city'']) [''disease'']])
   \<and> map fst hospital_decades = map fst hospital
   \<and> map (length \<circ> snd) hospital_decades = map (length \<circ> snd) hospital
   \<and> map_of hospital_decades ''disease'' = map_of hospital ''disease''
   \<and> map_of hospital_decades ''age'' \<noteq> map_of hospital ''age''"
proof -
  have run: "t_closeness kept_as_is widest hospital (PyList []) (PyList [''age'', ''city''])
     ''disease'' 1 (Num (1 / 2)) (Num 0) hospital_hierarchies
     = (Inr hospital_decades,
        [Enforce, Metric hospital (PyList [''age'', ''city'']) [''disease''],
         Generalized ''age'' 1,
         Metric hospital_decades (PyList [''age'', ''city'']) [''disease'']])"
    by (simp add: ex_defs)
  have ne: "hospital_decades \<noteq> []"
    by (simp add: hospital_decades_def)
  have e: "kept_as_is hospital (PyList []) (PyList [''age'', ''city'']) 1 (Num 0) hospital_hierarchies
      = Inr (hospital, 0, [(''age'', 0), (''city'', 0)])"
    by (simp add: kept_as_is_def)
  have other: "map_of hospital_decades ''age'' \<noteq> map_of hospital ''age''"
    by (simp add: hospital_decades_def hospital_def)
  from loop_keeps_rows_and_other_columns [OF run ne e] run other show ?thesis
    by simp
qed

section \<open>The loop ends\<close>










end
